theory Spec2Isabelle
  imports Main
begin

section \<open>Data model (types.ts)\<close>

text \<open>
  A JavaScript string is modelled as a \<open>string\<close>, one \<open>char\<close> per code unit; the
  model covers strings whose code units are below U+0100 (Latin-1).
  The fields of \<open>Word\<close> carry a \<open>word_\<close> prefix because \<open>id\<close>, \<open>text\<close> and
  \<open>definition\<close> are taken in Isabelle.
\<close>

record Word =
  word_id :: string
  word_text :: string
  word_phonetic :: string
  word_definition :: string

datatype error_type = Learning | Dictation

record ErrorRecord =
  wordId :: string
  wordText :: string
  wordDefinition :: string
  wordPhonetic :: string
  date :: string
  err_type :: error_type

section \<open>JavaScript built-ins used by the components\<close>

text \<open>
  \<open>Set<string>\<close> keeps insertion order, and \<open>Array.from\<close> reads it in that order: a set is
  a list without duplicates. \<open>add\<close> of a member keeps its place, \<open>delete\<close> removes it.
\<close>

definition set_add :: "'a \<Rightarrow> 'a list \<Rightarrow> 'a list" where
  "set_add x xs = (if x \<in> set xs then xs else xs @ [x])"

definition set_delete :: "'a \<Rightarrow> 'a list \<Rightarrow> 'a list" where
  "set_delete x xs = filter (\<lambda>y. y \<noteq> x) xs"

text \<open>\<open>new Set(xs).size\<close>: the number of distinct elements of an array.\<close>

definition set_size :: "'a list \<Rightarrow> nat" where
  "set_size xs = length (remdups xs)"

text \<open>
  \<open>xs.slice(0, n)\<close> for an integer \<open>n\<close>: a negative end counts from the end of the array,
  an end beyond the length stops at the length.
\<close>

definition slice0 :: "'a list \<Rightarrow> int \<Rightarrow> 'a list" where
  "slice0 xs n = (if n < 0 then take (nat (int (length xs) + n)) xs else take (nat n) xs)"

text \<open>
  What a handler reads from outside the component during one invocation:
  \<open>randomUUID k\<close> is the value of its \<open>k\<close>-th call of \<open>crypto.randomUUID()\<close>, and
  \<open>today\<close> is \<open>new Date().toISOString().split('T')[0]\<close>.
\<close>

record env =
  randomUUID :: "nat \<Rightarrow> string"
  today :: string

section \<open>StudyMode.tsx\<close>

record QueueItem =
  word :: Word
  item_id :: string

datatype response = Known | Vague | Unknown

text \<open>The component's state hooks; \<open>learnedIds\<close> is a \<open>Set<string>\<close>.\<close>

record study_state =
  queue :: "QueueItem list"
  currentIndex :: nat
  isRevealed :: bool
  sessionErrors :: "ErrorRecord list"
  learnedIds :: "string list"

text \<open>The argument of \<open>onComplete\<close>.\<close>

record study_result =
  reviewedCount :: nat
  errors :: "ErrorRecord list"
  result_learnedIds :: "string list"

text \<open>The effect that initialises the queue: the first \<open>targetCount\<close> words, one item each.\<close>

definition initStudy :: "(nat \<Rightarrow> string) \<Rightarrow> Word list \<Rightarrow> int \<Rightarrow> study_state" where
  "initStudy uuid words targetCount =
     \<lparr>queue = map (\<lambda>(k, w). \<lparr>word = w, item_id = uuid k\<rparr>)
                (enumerate 0 (slice0 words targetCount)),
      currentIndex = 0, isRevealed = False, sessionErrors = [], learnedIds = []\<rparr>"

text \<open>\<open>queue[currentIndex]\<close>, which is \<open>undefined\<close> out of range.\<close>

definition currentItem :: "study_state \<Rightarrow> QueueItem option" where
  "currentItem s =
     (if currentIndex s < length (queue s) then Some (queue s ! currentIndex s) else None)"

text \<open>The updater that \<open>recordError\<close> hands to \<open>setSessionErrors\<close>, applied to \<open>prev\<close>.\<close>

definition recordError :: "env \<Rightarrow> Word \<Rightarrow> ErrorRecord list \<Rightarrow> ErrorRecord list" where
  "recordError e w prev =
     (if list_ex (\<lambda>r. wordId r = word_id w) prev then prev
      else prev @ [\<lparr>wordId = word_id w, wordText = word_text w,
                     wordDefinition = word_definition w, wordPhonetic = word_phonetic w,
                     date = today e, err_type = Learning\<rparr>])"

text \<open>
  \<open>handleResponse\<close>. The state setters are applied to the state the handler was rendered
  with, and the result carries the argument of \<open>onComplete\<close> when the handler schedules
  it. In the finishing branch the summary is built from the values the closure captured:
  \<open>learnedIds\<close> patched by hand, \<open>sessionErrors\<close> as captured, and neither the queue nor
  the index is written back.
\<close>

definition handleResponse ::
  "env \<Rightarrow> response \<Rightarrow> study_state \<Rightarrow> study_state \<times> study_result option" where
  "handleResponse e type s =
     (case currentItem s of
        None \<Rightarrow> (s, None)
      | Some item \<Rightarrow>
          let currentWord = word item;
              fresh = (\<lambda>k. \<lparr>word = currentWord, item_id = randomUUID e k\<rparr>);
              nextQueue = (case type of
                  Known \<Rightarrow> queue s
                | Vague \<Rightarrow> queue s @ [fresh 0]
                | Unknown \<Rightarrow> queue s @ [fresh 0, fresh 1, fresh 2]);
              s1 = (case type of
                  Known \<Rightarrow> s\<lparr>learnedIds := set_add (word_id currentWord) (learnedIds s)\<rparr>
                | Vague \<Rightarrow> s\<lparr>sessionErrors := recordError e currentWord (sessionErrors s),
                             learnedIds := set_delete (word_id currentWord) (learnedIds s)\<rparr>
                | Unknown \<Rightarrow> s\<lparr>sessionErrors := recordError e currentWord (sessionErrors s),
                               learnedIds := set_delete (word_id currentWord) (learnedIds s)\<rparr>);
              nextIndex = currentIndex s + 1
          in if nextIndex \<ge> length nextQueue then
               let finalLearned =
                     (if type = Known then set_add (word_id currentWord) (learnedIds s)
                      else set_delete (word_id currentWord) (learnedIds s));
                   uniqueReviewed = set_size (map (\<lambda>i. word_id (word i)) nextQueue)
               in (s1, Some \<lparr>reviewedCount = uniqueReviewed, errors = sessionErrors s,
                             result_learnedIds = finalLearned\<rparr>)
             else (s1\<lparr>queue := nextQueue, currentIndex := nextIndex, isRevealed := False\<rparr>,
                   None))"

text \<open>
  A session as the component lives it: one call of \<open>handleResponse\<close> per response, each
  made by the closure of the render that shows the state the previous call left, until
  \<open>onComplete\<close> is called and the parent unmounts the component. (The \<open>vague\<close> and
  \<open>unknown\<close> buttons call the handler 800 ms after the click; a session here has no
  second click or key press inside that delay.)
\<close>

fun studySession :: "(env \<times> response) list \<Rightarrow> study_state \<Rightarrow> study_result option" where
  "studySession [] s = None"
| "studySession ((e, r) # cs) s =
     (case handleResponse e r s of
        (s', Some res) \<Rightarrow> Some res
      | (s', None) \<Rightarrow> studySession cs s')"

text \<open>The responses of a session in order, each with the id of the word it was given for.\<close>

fun responses :: "(env \<times> response) list \<Rightarrow> study_state \<Rightarrow> (string \<times> response) list" where
  "responses [] s = []"
| "responses ((e, r) # cs) s =
     (case currentItem s of
        None \<Rightarrow> responses cs s
      | Some item \<Rightarrow>
          (word_id (word item), r) #
          (case handleResponse e r s of
             (s', Some res) \<Rightarrow> []
           | (s', None) \<Rightarrow> responses cs s'))"

definition lastResponse :: "(string \<times> response) list \<Rightarrow> string \<Rightarrow> response option" where
  "lastResponse log w = map_of (rev log) w"

text \<open>The states a session goes through, the last one included.\<close>

fun visited :: "(env \<times> response) list \<Rightarrow> study_state \<Rightarrow> study_state list" where
  "visited [] s = [s]"
| "visited ((e, r) # cs) s =
     s # (case handleResponse e r s of
            (s', Some res) \<Rightarrow> [s']
          | (s', None) \<Rightarrow> visited cs s')"

definition queueIds :: "study_state \<Rightarrow> string set" where
  "queueIds s = set (map (\<lambda>i. word_id (word i)) (queue s))"

section \<open>DictationMode.tsx\<close>

text \<open>
  \<open>String.prototype.trim\<close> and \<open>toLowerCase\<close> on Latin-1: the white space and line
  terminators below U+0100 are U+0009 to U+000D, U+0020 and U+00A0; the letters with a
  lower-case form are A to Z and U+00C0 to U+00DE without U+00D7, each 32 below it.
\<close>

definition isWhiteSpace :: "char \<Rightarrow> bool" where
  "isWhiteSpace c = ((of_char c :: nat) \<in> {9, 10, 11, 12, 13, 32, 160})"

definition trim :: "string \<Rightarrow> string" where
  "trim s = rev (dropWhile isWhiteSpace (rev (dropWhile isWhiteSpace s)))"

definition toLowerChar :: "char \<Rightarrow> char" where
  "toLowerChar c =
     (let n = (of_char c :: nat)
      in if (65 \<le> n \<and> n \<le> 90) \<or> (192 \<le> n \<and> n \<le> 222 \<and> n \<noteq> 215)
         then char_of (n + 32) else c)"

definition toLowerCase :: "string \<Rightarrow> string" where
  "toLowerCase s = map toLowerChar s"

datatype feedback = NoFeedback | Correct | Incorrect

text \<open>
  The state hooks that the handlers read or write (\<open>speed\<close> and \<open>showSpeedSettings\<close>
  only drive the audio and the settings popup). \<open>d_learnedIds\<close> is an array here.
\<close>

record dictation_state =
  d_queue :: "Word list"
  d_currentIndex :: nat
  d_input :: string
  d_feedback :: feedback
  d_sessionErrors :: "ErrorRecord list"
  d_learnedIds :: "string list"

record dictation_result =
  totalCount :: nat
  d_errors :: "ErrorRecord list"
  d_result_learnedIds :: "string list"

text \<open>
  The effect that initialises the queue. \<open>shuffled\<close> is what
  \<open>[...words].sort(() => 0.5 - Math.random())\<close> returned, some permutation of \<open>words\<close>.
\<close>

definition initDictation :: "Word list \<Rightarrow> int \<Rightarrow> dictation_state" where
  "initDictation shuffled targetCount =
     \<lparr>d_queue = slice0 shuffled targetCount, d_currentIndex = 0, d_input = [],
      d_feedback = NoFeedback, d_sessionErrors = [], d_learnedIds = []\<rparr>"

definition currentWord :: "dictation_state \<Rightarrow> Word option" where
  "currentWord s =
     (if d_currentIndex s < length (d_queue s) then Some (d_queue s ! d_currentIndex s)
      else None)"

definition nextWord :: "dictation_state \<Rightarrow> dictation_state \<times> dictation_result option" where
  "nextWord s =
     (let s1 = s\<lparr>d_feedback := NoFeedback, d_input := []\<rparr>
      in if d_currentIndex s + 1 \<ge> length (d_queue s) then
           (s1, Some \<lparr>totalCount = length (d_queue s), d_errors = d_sessionErrors s,
                      d_result_learnedIds = d_learnedIds s\<rparr>)
         else (s1\<lparr>d_currentIndex := d_currentIndex s + 1\<rparr>, None))"

definition handleSubmit :: "env \<Rightarrow> dictation_state \<Rightarrow> dictation_state" where
  "handleSubmit e s =
     (case currentWord s of
        None \<Rightarrow> s
      | Some w \<Rightarrow>
          if d_feedback s \<noteq> NoFeedback then s
          else
            let isCorrect = (toLowerCase (trim (d_input s)) = toLowerCase (word_text w))
            in if isCorrect then
                 s\<lparr>d_feedback := Correct, d_learnedIds := d_learnedIds s @ [word_id w]\<rparr>
               else
                 s\<lparr>d_feedback := Incorrect,
                   d_sessionErrors := d_sessionErrors s @
                     [\<lparr>wordId = word_id w, wordText = word_text w,
                       wordDefinition = word_definition w, wordPhonetic = word_phonetic w,
                       date = today e, err_type = Dictation\<rparr>]\<rparr>)"

text \<open>The key listener: Enter advances once feedback is shown; Tab only replays the audio.\<close>

definition handleKeyDown ::
  "string \<Rightarrow> dictation_state \<Rightarrow> dictation_state \<times> dictation_result option" where
  "handleKeyDown key s =
     (if key = ''Enter'' \<and> d_feedback s \<noteq> NoFeedback then nextWord s else (s, None))"

text \<open>
  What the user can do to the component: type into the input (disabled once feedback is
  shown), submit the form, press a key, or click the "next" button, which is rendered
  only while the feedback is \<open>incorrect\<close>.
\<close>

datatype dictation_event = Type string | Submit env | KeyDown string | ClickNext

fun dictationStep ::
  "dictation_event \<Rightarrow> dictation_state \<Rightarrow> dictation_state \<times> dictation_result option" where
  "dictationStep (Type v) s =
     (if d_feedback s = NoFeedback then (s\<lparr>d_input := v\<rparr>, None) else (s, None))"
| "dictationStep (Submit e) s = (handleSubmit e s, None)"
| "dictationStep (KeyDown k) s = handleKeyDown k s"
| "dictationStep ClickNext s = (if d_feedback s = Incorrect then nextWord s else (s, None))"

fun dictationSession :: "dictation_event list \<Rightarrow> dictation_state \<Rightarrow> dictation_result option" where
  "dictationSession [] s = None"
| "dictationSession (ev # evs) s =
     (case dictationStep ev s of
        (s', Some res) \<Rightarrow> Some res
      | (s', None) \<Rightarrow> dictationSession evs s')"

section \<open>Concrete sessions\<close>

definition apple :: Word where
  "apple = \<lparr>word_id = ''A'', word_text = ''apple'', word_phonetic = ''ap'',
            word_definition = ''a fruit''\<rparr>"

definition bee :: Word where
  "bee = \<lparr>word_id = ''B'', word_text = ''bee'', word_phonetic = ''bi'',
          word_definition = ''an insect''\<rparr>"

definition cat :: Word where
  "cat = \<lparr>word_id = ''C'', word_text = ''cat'', word_phonetic = ''kat'',
          word_definition = ''a pet''\<rparr>"

definition env0 :: env where
  "env0 = \<lparr>randomUUID = (\<lambda>k. replicate (Suc k) CHR ''u''), today = ''2024-01-01''\<rparr>"

definition uuid0 :: "nat \<Rightarrow> string" where
  "uuid0 k = replicate (Suc k) CHR ''q''"

text \<open>Words \<open>[A, B]\<close>, target 2: \<open>A\<close> known, \<open>B\<close> unknown, then \<open>B\<close> known three times.\<close>

definition scenario_start :: study_state where
  "scenario_start = initStudy uuid0 [apple, bee] 2"

definition scenario_calls :: "(env \<times> response) list" where
  "scenario_calls = [(env0, Known), (env0, Unknown), (env0, Known), (env0, Known), (env0, Known)]"

definition scenario_result :: study_result where
  "scenario_result =
     \<lparr>reviewedCount = 2,
      errors = [\<lparr>wordId = ''B'', wordText = ''bee'', wordDefinition = ''an insect'',
                 wordPhonetic = ''bi'', date = ''2024-01-01'', err_type = Learning\<rparr>],
      result_learnedIds = [''A'', ''B'']\<rparr>"

text \<open>Words \<open>[cat]\<close>, target 1: \<open>dog\<close> is typed, submitted, and the entry is passed.\<close>

definition cat_events :: "dictation_event list" where
  "cat_events = [Type ''dog'', Submit env0, ClickNext]"

text \<open>A candidate list that holds the same word twice, both entries misspelt.\<close>

definition duplicate_events :: "dictation_event list" where
  "duplicate_events =
     [Type ''aple'', Submit env0, ClickNext, Type ''appel'', Submit env0, KeyDown ''Enter'']"

definition cat_result :: dictation_result where
  "cat_result =
     \<lparr>totalCount = 1,
      d_errors = [\<lparr>wordId = ''C'', wordText = ''cat'', wordDefinition = ''a pet'',
                   wordPhonetic = ''kat'', date = ''2024-01-01'', err_type = Dictation\<rparr>],
      d_result_learnedIds = []\<rparr>"

definition duplicate_result :: dictation_result where
  "duplicate_result =
     \<lparr>totalCount = 2,
      d_errors = [\<lparr>wordId = ''A'', wordText = ''apple'', wordDefinition = ''a fruit'',
                   wordPhonetic = ''ap'', date = ''2024-01-01'', err_type = Dictation\<rparr>,
                  \<lparr>wordId = ''A'', wordText = ''apple'', wordDefinition = ''a fruit'',
                   wordPhonetic = ''ap'', date = ''2024-01-01'', err_type = Dictation\<rparr>],
      d_result_learnedIds = []\<rparr>"

text \<open>The study scenario after its second response, \<open>B\<close> unknown.\<close>

definition scenario_after_unknown :: study_state where
  "scenario_after_unknown =
     \<lparr>queue = [\<lparr>word = apple, item_id = uuid0 0\<rparr>, \<lparr>word = bee, item_id = uuid0 1\<rparr>,
               \<lparr>word = bee, item_id = randomUUID env0 0\<rparr>,
               \<lparr>word = bee, item_id = randomUUID env0 1\<rparr>,
               \<lparr>word = bee, item_id = randomUUID env0 2\<rparr>],
      currentIndex = 2, isRevealed = False,
      sessionErrors = [\<lparr>wordId = ''B'', wordText = ''bee'', wordDefinition = ''an insect'',
                        wordPhonetic = ''bi'', date = ''2024-01-01'', err_type = Learning\<rparr>],
      learnedIds = [''A'']\<rparr>"

text \<open>
  Word \<open>[A]\<close>, target 1: \<open>A\<close> unknown, then its second occurrence known and its third
  vague. The session is not over: two occurrences are still queued.
\<close>

definition relapse_calls :: "(env \<times> response) list" where
  "relapse_calls = [(env0, Unknown), (env0, Known), (env0, Vague)]"

section \<open>The study handler, case by case\<close>

lemma handleResponse_undefined:
  "currentItem s = None \<Longrightarrow> handleResponse e r s = (s, None)"
  by (simp add: handleResponse_def)

lemma currentItem_Some_index:
  "currentItem s = Some item \<Longrightarrow> currentIndex s < length (queue s)"
  by (simp add: currentItem_def split: if_splits)

lemma handleResponse_Known:
  assumes "currentItem s = Some item"
  shows "handleResponse e Known s =
    (if currentIndex s + 1 \<ge> length (queue s)
     then (s\<lparr>learnedIds := set_add (word_id (word item)) (learnedIds s)\<rparr>,
           Some \<lparr>reviewedCount = set_size (map (\<lambda>i. word_id (word i)) (queue s)),
                 errors = sessionErrors s,
                 result_learnedIds = set_add (word_id (word item)) (learnedIds s)\<rparr>)
     else (s\<lparr>learnedIds := set_add (word_id (word item)) (learnedIds s),
             queue := queue s, currentIndex := currentIndex s + 1, isRevealed := False\<rparr>,
           None))"
  using assms by (simp add: handleResponse_def Let_def)

lemma handleResponse_Vague:
  assumes "currentItem s = Some item"
  shows "handleResponse e Vague s =
    (s\<lparr>sessionErrors := recordError e (word item) (sessionErrors s),
       learnedIds := set_delete (word_id (word item)) (learnedIds s),
       queue := queue s @ [\<lparr>word = word item, item_id = randomUUID e 0\<rparr>],
       currentIndex := currentIndex s + 1, isRevealed := False\<rparr>, None)"
  using assms currentItem_Some_index[OF assms] by (simp add: handleResponse_def Let_def)

lemma handleResponse_Unknown:
  assumes "currentItem s = Some item"
  shows "handleResponse e Unknown s =
    (s\<lparr>sessionErrors := recordError e (word item) (sessionErrors s),
       learnedIds := set_delete (word_id (word item)) (learnedIds s),
       queue := queue s @ [\<lparr>word = word item, item_id = randomUUID e 0\<rparr>,
                           \<lparr>word = word item, item_id = randomUUID e 1\<rparr>,
                           \<lparr>word = word item, item_id = randomUUID e 2\<rparr>],
       currentIndex := currentIndex s + 1, isRevealed := False\<rparr>, None)"
  using assms currentItem_Some_index[OF assms] by (simp add: handleResponse_def Let_def)

lemmas handleResponse_cases = handleResponse_Known handleResponse_Vague handleResponse_Unknown

lemma handleResponse_finishes_on_Known:
  assumes "handleResponse e r s = (s', Some res)"
  shows "r = Known"
proof (cases "currentItem s")
  case None
  then show ?thesis using assms by (simp add: handleResponse_undefined)
next
  case (Some item)
  then show ?thesis using assms by (cases r) (simp_all add: handleResponse_cases)
qed

lemma set_set_add: "set (set_add x xs) = insert x (set xs)"
  by (auto simp: set_add_def)

lemma set_set_delete: "set (set_delete x xs) = set xs - {x}"
  by (auto simp: set_delete_def)

lemma set_size_card: "set_size xs = card (set xs)"
  by (simp add: set_size_def length_remdups_card_conv)

lemma scenario_queue:
  "queue scenario_start = [\<lparr>word = apple, item_id = uuid0 0\<rparr>, \<lparr>word = bee, item_id = uuid0 1\<rparr>]"
  by (simp add: scenario_start_def initStudy_def slice0_def enumerate_eq_zip upt_rec)

lemma scenario_run: "studySession scenario_calls scenario_start = Some scenario_result"
  by code_simp

lemma scenario_responses:
  "responses scenario_calls scenario_start =
     [(''A'', Known), (''B'', Unknown), (''B'', Known), (''B'', Known), (''B'', Known)]"
  by code_simp

section \<open>Requeue policy\<close>

text \<open>
  C1. Every response to the entry at the cursor leaves the queue it found in place and
  appends to its tail: nothing for \<open>known\<close>, one new entry for the same word for \<open>vague\<close>,
  three for \<open>unknown\<close>.
\<close>

theorem requeue_counts:
  assumes "currentItem s = Some item"
  shows "queue (fst (handleResponse e r s)) = queue s @
    (case r of
       Known \<Rightarrow> []
     | Vague \<Rightarrow> [\<lparr>word = word item, item_id = randomUUID e 0\<rparr>]
     | Unknown \<Rightarrow> [\<lparr>word = word item, item_id = randomUUID e 0\<rparr>,
                    \<lparr>word = word item, item_id = randomUUID e 1\<rparr>,
                    \<lparr>word = word item, item_id = randomUUID e 2\<rparr>])"
  using assms by (cases r) (simp_all add: handleResponse_cases)

theorem requeue_counts_witness:
  "currentItem (scenario_start\<lparr>currentIndex := 1\<rparr>) = Some \<lparr>word = bee, item_id = uuid0 1\<rparr> \<and>
   queue (fst (handleResponse env0 Unknown (scenario_start\<lparr>currentIndex := 1\<rparr>))) =
     [\<lparr>word = apple, item_id = uuid0 0\<rparr>, \<lparr>word = bee, item_id = uuid0 1\<rparr>,
      \<lparr>word = bee, item_id = randomUUID env0 0\<rparr>, \<lparr>word = bee, item_id = randomUUID env0 1\<rparr>,
      \<lparr>word = bee, item_id = randomUUID env0 2\<rparr>]"
proof -
  let ?s = "scenario_start\<lparr>currentIndex := 1\<rparr>"
  have h: "currentItem ?s = Some \<lparr>word = bee, item_id = uuid0 1\<rparr>"
    using scenario_queue by (simp add: currentItem_def)
  show ?thesis
    using requeue_counts[OF h, of env0 Unknown] h scenario_queue by simp
qed

text \<open>
  C10. A \<open>vague\<close> or \<open>unknown\<close> response never finishes the session: it calls
  \<open>onComplete\<close> with nothing, and on an entry at the cursor it leaves the advanced cursor
  strictly inside the grown queue. So whenever a summary is emitted the response was
  \<open>known\<close>, given for the entry at the cursor, and that word's id is in the summary's
  \<open>learnedIds\<close>.
\<close>

theorem never_finalizes_on_failure:
  "(r \<noteq> Known \<longrightarrow> snd (handleResponse e r s) = None) \<and>
   (r \<noteq> Known \<and> currentItem s = Some item \<longrightarrow>
      currentIndex (fst (handleResponse e r s)) = currentIndex s + 1 \<and>
      currentIndex (fst (handleResponse e r s)) < length (queue (fst (handleResponse e r s)))) \<and>
   (handleResponse e r s = (s', Some res) \<longrightarrow>
      r = Known \<and> (\<exists>it. currentItem s = Some it \<and>
                         word_id (word it) \<in> set (result_learnedIds res)))"
proof (cases "currentItem s")
  case None
  then show ?thesis by (simp add: handleResponse_undefined)
next
  case (Some it)
  note idx = currentItem_Some_index[OF Some]
  show ?thesis
  proof (cases r)
    case Known
    then show ?thesis using Some by (auto simp: handleResponse_Known set_add_def)
  next
    case Vague
    then show ?thesis using Some idx by (simp add: handleResponse_Vague)
  next
    case Unknown
    then show ?thesis using Some idx by (simp add: handleResponse_Unknown)
  qed
qed

theorem never_finalizes_on_failure_witness:
  "currentItem (scenario_start\<lparr>currentIndex := 1\<rparr>) = Some \<lparr>word = bee, item_id = uuid0 1\<rparr> \<and>
   snd (handleResponse env0 Unknown (scenario_start\<lparr>currentIndex := 1\<rparr>)) = None \<and>
   currentIndex (fst (handleResponse env0 Unknown (scenario_start\<lparr>currentIndex := 1\<rparr>))) = 2 \<and>
   2 < length (queue (fst (handleResponse env0 Unknown (scenario_start\<lparr>currentIndex := 1\<rparr>)))) \<and>
   handleResponse env0 Known (scenario_start\<lparr>currentIndex := 1\<rparr>) =
     (scenario_start\<lparr>currentIndex := 1, learnedIds := [''B'']\<rparr>,
      Some \<lparr>reviewedCount = 2, errors = [], result_learnedIds = [''B'']\<rparr>) \<and>
   ''B'' \<in> set (result_learnedIds \<lparr>reviewedCount = 2, errors = [], result_learnedIds = [''B'']\<rparr>)"
proof -
  let ?s = "scenario_start\<lparr>currentIndex := 1\<rparr>"
  let ?res = "\<lparr>reviewedCount = 2, errors = [], result_learnedIds = [''B'']\<rparr>"
  have h: "currentItem ?s = Some \<lparr>word = bee, item_id = uuid0 1\<rparr>"
    using scenario_queue by (simp add: currentItem_def)
  have k: "handleResponse env0 Known ?s = (?s\<lparr>learnedIds := [''B'']\<rparr>, Some ?res)"
    by code_simp
  let ?u = "handleResponse env0 Unknown ?s"
  have u: "snd ?u = None \<and> currentIndex (fst ?u) = 2 \<and> currentIndex (fst ?u) < length (queue (fst ?u))"
    using never_finalizes_on_failure[of Unknown env0 ?s "\<lparr>word = bee, item_id = uuid0 1\<rparr>" ?s ?res] h
    by simp
  have m: "''B'' \<in> set (result_learnedIds ?res)"
    using never_finalizes_on_failure[of Known env0 ?s _ "?s\<lparr>learnedIds := [''B'']\<rparr>" ?res] h k
    by simp
  show ?thesis using u h k m by simp
qed

section \<open>Calls without a current entry\<close>

text \<open>
  C9, as the code has it. With an empty queue or a cursor past the end there is no current
  entry, and \<open>handleResponse\<close> returns at its guard: the state is unchanged and nothing
  is reported to the caller.
\<close>

theorem out_of_range_ignored:
  "queue s = [] \<or> currentIndex s \<ge> length (queue s) \<Longrightarrow> handleResponse e r s = (s, None)"
  by (rule handleResponse_undefined) (auto simp: currentItem_def)

theorem out_of_range_ignored_witness:
  "length (queue scenario_start) \<le> currentIndex (scenario_start\<lparr>currentIndex := 7\<rparr>) \<and>
   handleResponse env0 Vague (scenario_start\<lparr>currentIndex := 7\<rparr>) =
     (scenario_start\<lparr>currentIndex := 7\<rparr>, None)"
proof -
  have h: "length (queue (scenario_start\<lparr>currentIndex := 7\<rparr>))
             \<le> currentIndex (scenario_start\<lparr>currentIndex := 7\<rparr>)"
    using scenario_queue by simp
  then have "queue (scenario_start\<lparr>currentIndex := 7\<rparr>) = [] \<or>
             length (queue (scenario_start\<lparr>currentIndex := 7\<rparr>))
               \<le> currentIndex (scenario_start\<lparr>currentIndex := 7\<rparr>)" ..
  from out_of_range_ignored[OF this, of env0 Vague] h show ?thesis by simp
qed

text \<open>
  The call on an empty queue is silently ignored: it returns the state it was given and
  hands the caller nothing, where C9 asks for a disallowed-operation signal.
\<close>

theorem empty_queue_silent_counterexample:
  "currentItem (initStudy uuid0 [] 5) = None \<and>
   handleResponse env0 Known (initStudy uuid0 [] 5) = (initStudy uuid0 [] 5, None)"
  by (simp add: handleResponse_def currentItem_def initStudy_def slice0_def)

section \<open>Last response wins\<close>

lemma handleResponse_learned:
  assumes "currentItem s = Some item" and "handleResponse e r s = (s', out)"
  shows "set (learnedIds s') =
           (if r = Known then insert (word_id (word item)) (set (learnedIds s))
            else set (learnedIds s) - {word_id (word item)})"
    and "out = Some res \<Longrightarrow> result_learnedIds res = learnedIds s'"
  using assms
  by (cases r; auto simp: handleResponse_cases set_set_add set_set_delete split: if_splits)+

text \<open>
  The invariant of a session: an id is in \<open>learnedIds\<close> exactly when the last response
  logged for it so far is \<open>known\<close>.
\<close>

lemma learned_last_gen:
  assumes "studySession cs s = Some res"
    and "\<And>w. w \<in> set (learnedIds s) \<longleftrightarrow> map_of (rev log) w = Some Known"
  shows "w \<in> set (result_learnedIds res) \<longleftrightarrow>
         map_of (rev (log @ responses cs s)) w = Some Known"
  using assms
proof (induction cs arbitrary: s log)
  case Nil
  then show ?case by simp
next
  case (Cons c cs)
  obtain e r where c: "c = (e, r)" by (cases c)
  show ?case
  proof (cases "currentItem s")
    case None
    then have "studySession cs s = Some res"
      using Cons.prems(1) by (simp add: c handleResponse_undefined)
    from Cons.IH[OF this Cons.prems(2)] show ?thesis
      using None by (simp add: c)
  next
    case (Some item)
    obtain s' out where step: "handleResponse e r s = (s', out)"
      by (cases "handleResponse e r s")
    let ?w0 = "word_id (word item)"
    let ?log' = "log @ [(?w0, r)]"
    have inv': "v \<in> set (learnedIds s') \<longleftrightarrow> map_of (rev ?log') v = Some Known" for v
      using handleResponse_learned(1)[OF Some step] Cons.prems(2)[of v]
      by (cases r) auto
    show ?thesis
    proof (cases out)
      case None
      then have "studySession cs s' = Some res"
        using Cons.prems(1) step by (simp add: c)
      from Cons.IH[OF this inv'] show ?thesis
        using Some step None by (simp add: c)
    next
      case (Some res')
      then have "res' = res" using Cons.prems(1) step by (simp add: c)
      then have "result_learnedIds res = learnedIds s'"
        using handleResponse_learned(2)[OF \<open>currentItem s = Some item\<close> step] Some by simp
      then show ?thesis
        using inv'[of w] \<open>currentItem s = Some item\<close> step Some by (simp add: c)
    qed
  qed
qed

lemma visited_nonempty: "visited cs s \<noteq> []"
  by (cases cs) auto

lemma visited_start: "s \<in> set (visited cs s)"
  by (cases cs) auto

text \<open>
  The same invariant read at the state a run of calls has reached, whether or not the
  session is over.
\<close>

lemma learned_visited_gen:
  assumes "\<And>w. w \<in> set (learnedIds s) \<longleftrightarrow> map_of (rev log) w = Some Known"
  shows "w \<in> set (learnedIds (last (visited cs s))) \<longleftrightarrow>
         map_of (rev (log @ responses cs s)) w = Some Known"
  using assms
proof (induction cs arbitrary: s log)
  case Nil
  then show ?case by simp
next
  case (Cons c cs)
  obtain e r where c: "c = (e, r)" by (cases c)
  show ?case
  proof (cases "currentItem s")
    case None
    from Cons.IH[OF Cons.prems] show ?thesis
      using None by (simp add: c handleResponse_undefined visited_nonempty)
  next
    case (Some item)
    obtain s' out where step: "handleResponse e r s = (s', out)"
      by (cases "handleResponse e r s")
    let ?w0 = "word_id (word item)"
    let ?log' = "log @ [(?w0, r)]"
    have inv': "v \<in> set (learnedIds s') \<longleftrightarrow> map_of (rev ?log') v = Some Known" for v
      using handleResponse_learned(1)[OF Some step] Cons.prems[of v]
      by (cases r) auto
    show ?thesis
    proof (cases out)
      case None
      from Cons.IH[OF inv'] show ?thesis
        using Some step None by (simp add: c visited_nonempty)
    next
      case (Some res')
      then show ?thesis
        using inv'[of w] \<open>currentItem s = Some item\<close> step by (simp add: c)
    qed
  qed
qed

text \<open>
  C2. Last response wins, at every point of a study session and in its summary.
  A \<open>known\<close> response to the entry at the cursor puts the word's id into \<open>learnedIds\<close>,
  a \<open>vague\<close> or \<open>unknown\<close> response takes it out. So in the state any run of calls
  from the initial state has reached, an id is in \<open>learnedIds\<close> if and only if the last
  response given so far for any occurrence of that word was \<open>known\<close>; and when the
  session completes, the same holds of the summary's \<open>learnedIds\<close>.
\<close>

theorem learned_iff_last_known:
  "(currentItem s = Some item \<longrightarrow>
      word_id (word item) \<in> set (learnedIds (fst (handleResponse e Known s)))) \<and>
   (currentItem s = Some item \<and> r \<noteq> Known \<longrightarrow>
      word_id (word item) \<notin> set (learnedIds (fst (handleResponse e r s)))) \<and>
   (w \<in> set (learnedIds (last (visited cs (initStudy uuid words targetCount)))) \<longleftrightarrow>
      lastResponse (responses cs (initStudy uuid words targetCount)) w = Some Known) \<and>
   (studySession cs' (initStudy uuid words targetCount) = Some res \<longrightarrow>
      (w \<in> set (result_learnedIds res) \<longleftrightarrow>
       lastResponse (responses cs' (initStudy uuid words targetCount)) w = Some Known))"
proof -
  have add: "word_id (word item) \<in> set (learnedIds (fst (handleResponse e Known s)))"
    if "currentItem s = Some item"
    using handleResponse_learned(1)[OF that, of e Known] by (simp add: prod_eq_iff)
  have del: "word_id (word item) \<notin> set (learnedIds (fst (handleResponse e r s)))"
    if "currentItem s = Some item" "r \<noteq> Known"
    using handleResponse_learned(1)[OF that(1), of e r] that(2) by (simp add: prod_eq_iff)
  have state: "w \<in> set (learnedIds (last (visited cs (initStudy uuid words targetCount)))) \<longleftrightarrow>
      lastResponse (responses cs (initStudy uuid words targetCount)) w = Some Known"
    using learned_visited_gen[of "initStudy uuid words targetCount" "[]" w cs]
    by (simp add: lastResponse_def initStudy_def)
  have summary: "w \<in> set (result_learnedIds res) \<longleftrightarrow>
       lastResponse (responses cs' (initStudy uuid words targetCount)) w = Some Known"
    if "studySession cs' (initStudy uuid words targetCount) = Some res"
    using learned_last_gen[OF that, of "[]" w]
    by (simp add: lastResponse_def initStudy_def)
  show ?thesis using add del state summary by blast
qed

text \<open>
  The first session ends with \<open>A\<close> vague after \<open>A\<close> known: the id has been removed.
  The second is the completed scenario: \<open>B\<close> unknown, then known, and the id is back.
\<close>

theorem learned_iff_last_known_witness:
  "currentItem (initStudy uuid0 [apple] 1) = Some \<lparr>word = apple, item_id = uuid0 0\<rparr> \<and>
   ''A'' \<in> set (learnedIds (fst (handleResponse env0 Known (initStudy uuid0 [apple] 1)))) \<and>
   ''A'' \<notin> set (learnedIds (fst (handleResponse env0 Vague (initStudy uuid0 [apple] 1)))) \<and>
   responses relapse_calls (initStudy uuid0 [apple] 1) =
     [(''A'', Unknown), (''A'', Known), (''A'', Vague)] \<and>
   lastResponse (responses relapse_calls (initStudy uuid0 [apple] 1)) ''A'' = Some Vague \<and>
   ''A'' \<notin> set (learnedIds (last (visited relapse_calls (initStudy uuid0 [apple] 1)))) \<and>
   ''A'' \<in> set (learnedIds (last (visited (butlast relapse_calls) (initStudy uuid0 [apple] 1)))) \<and>
   studySession scenario_calls (initStudy uuid0 [apple, bee] 2) = Some scenario_result \<and>
   lastResponse (responses scenario_calls (initStudy uuid0 [apple, bee] 2)) ''B'' = Some Known \<and>
   ''B'' \<in> set (result_learnedIds scenario_result)"
proof -
  let ?a = "initStudy uuid0 [apple] 1"
  let ?item = "\<lparr>word = apple, item_id = uuid0 0\<rparr>"
  have cur: "currentItem ?a = Some ?item"
    by (simp add: currentItem_def initStudy_def slice0_def enumerate_eq_zip upt_rec)
  have wid: "word_id (word ?item) = ''A''"
    by (simp add: apple_def)
  have resp: "responses relapse_calls ?a = [(''A'', Unknown), (''A'', Known), (''A'', Vague)]"
    by code_simp
  have last_vague: "lastResponse (responses relapse_calls ?a) ''A'' = Some Vague"
    by (simp add: resp lastResponse_def)
  have resp2: "responses (butlast relapse_calls) ?a = [(''A'', Unknown), (''A'', Known)]"
    by code_simp
  have last_known: "lastResponse (responses (butlast relapse_calls) ?a) ''A'' = Some Known"
    by (simp add: resp2 lastResponse_def)
  have run: "studySession scenario_calls (initStudy uuid0 [apple, bee] 2) = Some scenario_result"
    using scenario_run by (simp add: scenario_start_def)
  have respB: "lastResponse (responses scenario_calls (initStudy uuid0 [apple, bee] 2)) ''B''
                 = Some Known"
    using scenario_responses by (simp add: scenario_start_def lastResponse_def)
  note at_relapse = learned_iff_last_known[where s = ?a and item = ?item and e = env0 and r = Vague
      and w = "''A''" and cs = relapse_calls and uuid = uuid0 and words = "[apple]"
      and targetCount = 1 and cs' = "[]"]
  note at_known = learned_iff_last_known[where s = ?a and item = ?item and e = env0 and r = Vague
      and w = "''A''" and cs = "butlast relapse_calls" and uuid = uuid0 and words = "[apple]"
      and targetCount = 1 and cs' = "[]"]
  note at_end = learned_iff_last_known[where s = ?a and item = ?item and e = env0 and r = Vague
      and w = "''B''" and cs = "[]" and uuid = uuid0 and words = "[apple, bee]"
      and targetCount = 2 and cs' = scenario_calls and res = scenario_result]
  have a1: "''A'' \<in> set (learnedIds (fst (handleResponse env0 Known ?a)))"
    using at_relapse cur wid by simp
  have a2: "''A'' \<notin> set (learnedIds (fst (handleResponse env0 Vague ?a)))"
    using at_relapse cur wid by simp
  have a3: "''A'' \<notin> set (learnedIds (last (visited relapse_calls ?a)))"
    using at_relapse last_vague by simp
  have a4: "''A'' \<in> set (learnedIds (last (visited (butlast relapse_calls) ?a)))"
    using at_known last_known by simp
  have a5: "''B'' \<in> set (result_learnedIds scenario_result)"
    using at_end run respB by blast
  show ?thesis
    using cur a1 a2 resp last_vague a3 a4 run respB a5 by blast
qed

section \<open>Counting the words of a session\<close>

lemma handleResponse_queueIds:
  assumes "handleResponse e r s = (s', out)"
  shows "queueIds s \<subseteq> queueIds s'"
    and "out = Some res \<Longrightarrow> reviewedCount res = card (queueIds s')"
proof -
  show "queueIds s \<subseteq> queueIds s'"
  proof (cases "currentItem s")
    case None
    then show ?thesis using assms by (simp add: handleResponse_undefined)
  next
    case (Some item)
    then show ?thesis using assms
      by (cases r) (auto simp: handleResponse_cases queueIds_def split: if_splits)
  qed
  show "reviewedCount res = card (queueIds s')" if "out = Some res"
  proof (cases "currentItem s")
    case None
    then show ?thesis using assms that by (simp add: handleResponse_undefined)
  next
    case (Some item)
    then show ?thesis using assms that
      by (cases r) (auto simp: handleResponse_cases queueIds_def set_size_card split: if_splits)
  qed
qed

lemma visited_grows:
  "st \<in> set (visited cs s) \<Longrightarrow> queueIds st \<subseteq> queueIds (last (visited cs s))"
proof (induction cs arbitrary: s st)
  case Nil
  then show ?case by simp
next
  case (Cons c cs)
  obtain e r where c: "c = (e, r)" by (cases c)
  obtain s' out where step: "handleResponse e r s = (s', out)"
    by (cases "handleResponse e r s")
  note mono = handleResponse_queueIds(1)[OF step]
  show ?case
  proof (cases out)
    case None
    from Cons.IH[OF visited_start] have "queueIds s \<subseteq> queueIds (last (visited cs s'))"
      using mono by blast
    moreover have "st \<in> set (visited cs s') \<Longrightarrow> queueIds st \<subseteq> queueIds (last (visited cs s'))"
      by (rule Cons.IH)
    ultimately show ?thesis
      using Cons.prems step None by (auto simp: c visited_nonempty)
  next
    case (Some res)
    then show ?thesis using Cons.prems step mono by (auto simp: c)
  qed
qed

lemma studySession_last:
  "studySession cs s = Some res \<Longrightarrow> reviewedCount res = card (queueIds (last (visited cs s)))"
proof (induction cs arbitrary: s)
  case Nil
  then show ?case by simp
next
  case (Cons c cs)
  obtain e r where c: "c = (e, r)" by (cases c)
  obtain s' out where step: "handleResponse e r s = (s', out)"
    by (cases "handleResponse e r s")
  show ?case
  proof (cases out)
    case None
    then show ?thesis using Cons step by (simp add: c visited_nonempty)
  next
    case (Some res')
    then show ?thesis
      using Cons.prems step handleResponse_queueIds(2)[OF step, of res] by (simp add: c)
  qed
qed

lemma visited_union: "(\<Union>st\<in>set (visited cs s). queueIds st) = queueIds (last (visited cs s))"
proof
  show "(\<Union>st\<in>set (visited cs s). queueIds st) \<subseteq> queueIds (last (visited cs s))"
    using visited_grows by blast
  have "last (visited cs s) \<in> set (visited cs s)"
    by (simp add: visited_nonempty)
  then show "queueIds (last (visited cs s)) \<subseteq> (\<Union>st\<in>set (visited cs s). queueIds st)"
    by blast
qed

lemma dictationStep_queue:
  "dictationStep ev d = (d', out) \<Longrightarrow> d_queue d' = d_queue d"
  by (cases ev)
     (auto simp: handleSubmit_def handleKeyDown_def nextWord_def Let_def
           split: if_splits option.splits)

lemma dictationStep_total:
  "dictationStep ev d = (d', Some res) \<Longrightarrow> totalCount res = length (d_queue d)"
  by (cases ev)
     (auto simp: handleKeyDown_def nextWord_def Let_def split: if_splits)

lemma dictationSession_total:
  "dictationSession evs d = Some res \<Longrightarrow> totalCount res = length (d_queue d)"
proof (induction evs arbitrary: d)
  case Nil
  then show ?case by simp
next
  case (Cons ev evs)
  obtain d' out where step: "dictationStep ev d = (d', out)"
    by (cases "dictationStep ev d")
  show ?case
  proof (cases out)
    case None
    then show ?thesis using Cons step dictationStep_queue[OF step] by simp
  next
    case (Some res')
    then show ?thesis using Cons.prems step dictationStep_total[of ev d d' res] by simp
  qed
qed

lemma cat_run: "dictationSession cat_events (initDictation [cat] 1) = Some cat_result"
  by code_simp

lemma duplicate_run:
  "dictationSession duplicate_events (initDictation [apple, apple] 2) = Some duplicate_result"
  by code_simp

text \<open>
  C3, as the code has it. The study summary's \<open>reviewedCount\<close> is the number of distinct
  word ids that ever occupied a queue entry during the session. The dictation summary's
  \<open>totalCount\<close> is the length of the queue, which is that number of distinct ids whenever
  the ids of the queued words are pairwise distinct.
\<close>

theorem counts_distinct_or_length:
  "(studySession cs s = Some res \<longrightarrow>
      reviewedCount res = card (\<Union>st\<in>set (visited cs s). queueIds st)) \<and>
   (dictationSession evs d = Some dres \<longrightarrow>
      totalCount dres = length (d_queue d) \<and>
      (distinct (map word_id (d_queue d)) \<longrightarrow>
         totalCount dres = card (set (map word_id (d_queue d)))))"
proof -
  have len: "length q = card (set (map word_id q))"
    if "distinct (map word_id q)" for q :: "Word list"
    using distinct_card[OF that] by simp
  show ?thesis
    using len[of "d_queue d"]
    by (simp add: visited_union studySession_last dictationSession_total)
qed

theorem counts_distinct_or_length_witness:
  "studySession scenario_calls scenario_start = Some scenario_result \<and>
   reviewedCount scenario_result
     = card (\<Union>st\<in>set (visited scenario_calls scenario_start). queueIds st) \<and>
   dictationSession cat_events (initDictation [cat] 1) = Some cat_result \<and>
   distinct (map word_id (d_queue (initDictation [cat] 1))) \<and>
   totalCount cat_result = card (set (map word_id (d_queue (initDictation [cat] 1))))"
proof -
  have dist: "distinct (map word_id (d_queue (initDictation [cat] 1)))"
    by (simp add: initDictation_def slice0_def)
  show ?thesis
    using counts_distinct_or_length[of scenario_calls scenario_start scenario_result
        cat_events "initDictation [cat] 1" cat_result]
      scenario_run cat_run dist
    by simp
qed

text \<open>
  With the same word twice in the candidate list the dictation summary counts two words
  where one distinct id occupied the queue.
\<close>

theorem totalCount_duplicates_counterexample:
  "dictationSession duplicate_events (initDictation [apple, apple] 2) = Some duplicate_result \<and>
   totalCount duplicate_result = 2 \<and>
   card (set (map word_id (d_queue (initDictation [apple, apple] 2)))) = 1 \<and>
   totalCount duplicate_result
     \<noteq> card (set (map word_id (d_queue (initDictation [apple, apple] 2))))"
  using duplicate_run
  by (simp add: duplicate_result_def initDictation_def slice0_def)

section \<open>The error accumulator\<close>

lemma recordError_keeps: "set prev \<subseteq> set (recordError e w prev)"
  by (auto simp: recordError_def)

lemma recordError_has: "word_id w \<in> wordId ` set (recordError e w prev)"
  by (auto simp: recordError_def list_ex_iff intro: rev_image_eqI)

lemma recordError_distinct:
  "distinct (map wordId prev) \<Longrightarrow> distinct (map wordId (recordError e w prev))"
  by (auto simp: recordError_def list_ex_iff)

lemma handleResponse_errors:
  assumes "handleResponse e r s = (s', out)"
  shows "set (sessionErrors s) \<subseteq> set (sessionErrors s')"
    and "out = Some res \<Longrightarrow> errors res = sessionErrors s'"
    and "currentItem s = Some item \<Longrightarrow> r \<noteq> Known \<Longrightarrow>
           word_id (word item) \<in> wordId ` set (sessionErrors s')"
    and "distinct (map wordId (sessionErrors s)) \<Longrightarrow> distinct (map wordId (sessionErrors s'))"
proof -
  show "set (sessionErrors s) \<subseteq> set (sessionErrors s')"
  proof (cases "currentItem s")
    case None
    then show ?thesis using assms by (simp add: handleResponse_undefined)
  next
    case (Some it)
    then show ?thesis using assms recordError_keeps[of "sessionErrors s" e "word it"]
      by (cases r) (auto simp: handleResponse_cases split: if_splits)
  qed
  show "errors res = sessionErrors s'" if "out = Some res"
  proof (cases "currentItem s")
    case None
    then show ?thesis using assms that by (simp add: handleResponse_undefined)
  next
    case (Some it)
    then show ?thesis using assms that
      by (cases r) (auto simp: handleResponse_cases split: if_splits)
  qed
  show "word_id (word item) \<in> wordId ` set (sessionErrors s')"
    if "currentItem s = Some item" "r \<noteq> Known"
    using that assms recordError_has[of "word item" e "sessionErrors s"]
    by (cases r) (auto simp: handleResponse_cases)
  show "distinct (map wordId (sessionErrors s'))" if "distinct (map wordId (sessionErrors s))"
  proof (cases "currentItem s")
    case None
    then show ?thesis using assms that by (simp add: handleResponse_undefined)
  next
    case (Some it)
    then show ?thesis using assms that recordError_distinct[OF that, of e "word it"]
      by (cases r) (auto simp: handleResponse_cases split: if_splits)
  qed
qed

text \<open>Every record that was ever in the accumulator is in the summary.\<close>

lemma visited_errors_kept:
  "studySession cs s = Some res \<Longrightarrow> st \<in> set (visited cs s) \<Longrightarrow>
   set (sessionErrors st) \<subseteq> set (errors res)"
proof (induction cs arbitrary: s st)
  case Nil
  then show ?case by simp
next
  case (Cons c cs)
  obtain e r where c: "c = (e, r)" by (cases c)
  obtain s' out where step: "handleResponse e r s = (s', out)"
    by (cases "handleResponse e r s")
  note keeps = handleResponse_errors(1)[OF step]
  show ?case
  proof (cases out)
    case None
    then have run: "studySession cs s' = Some res"
      using Cons.prems(1) step by (simp add: c)
    have "set (sessionErrors s) \<subseteq> set (errors res)"
      using Cons.IH[OF run visited_start] keeps by blast
    moreover have "st \<in> set (visited cs s') \<Longrightarrow> set (sessionErrors st) \<subseteq> set (errors res)"
      by (rule Cons.IH[OF run])
    ultimately show ?thesis
      using Cons.prems(2) step None by (auto simp: c)
  next
    case (Some res')
    then have "res' = res" using Cons.prems(1) step by (simp add: c)
    then have "errors res = sessionErrors s'"
      using handleResponse_errors(2)[OF step] Some by simp
    then show ?thesis using Cons.prems(2) step Some keeps by (auto simp: c)
  qed
qed

lemma failed_word_recorded:
  "studySession cs s = Some res \<Longrightarrow> (w, r) \<in> set (responses cs s) \<Longrightarrow> r \<noteq> Known \<Longrightarrow>
   w \<in> wordId ` set (errors res)"
proof (induction cs arbitrary: s)
  case Nil
  then show ?case by simp
next
  case (Cons c cs)
  obtain e r' where c: "c = (e, r')" by (cases c)
  obtain s' out where step: "handleResponse e r' s = (s', out)"
    by (cases "handleResponse e r' s")
  show ?case
  proof (cases "currentItem s")
    case None
    then show ?thesis using Cons by (simp add: c handleResponse_undefined)
  next
    case (Some item)
    show ?thesis
    proof (cases out)
      case None
      then have run: "studySession cs s' = Some res"
        using Cons.prems(1) step by (simp add: c)
      from Cons.prems(2)
      consider "w = word_id (word item) \<and> r = r'" | "(w, r) \<in> set (responses cs s')"
        using Some step None by (auto simp: c)
      then show ?thesis
      proof cases
        case 1
        then have "w \<in> wordId ` set (sessionErrors s')"
          using handleResponse_errors(3)[OF step Some] Cons.prems(3) by simp
        then show ?thesis using visited_errors_kept[OF run visited_start] by blast
      next
        case 2
        then show ?thesis using Cons.IH[OF run] Cons.prems(3) by simp
      qed
    next
      case (Some res')
      then have "r' = Known"
        using handleResponse_finishes_on_Known[of e r' s s' res'] step by simp
      then show ?thesis
        using Cons.prems step Some \<open>currentItem s = Some item\<close> by (auto simp: c)
    qed
  qed
qed

text \<open>The study engine keeps at most one record per word id.\<close>

lemma study_errors_distinct:
  "studySession cs s = Some res \<Longrightarrow> distinct (map wordId (sessionErrors s)) \<Longrightarrow>
   distinct (map wordId (errors res))"
proof (induction cs arbitrary: s)
  case Nil
  then show ?case by simp
next
  case (Cons c cs)
  obtain e r where c: "c = (e, r)" by (cases c)
  obtain s' out where step: "handleResponse e r s = (s', out)"
    by (cases "handleResponse e r s")
  note d = handleResponse_errors(4)[OF step Cons.prems(2)]
  show ?case
  proof (cases out)
    case None
    then show ?thesis using Cons.IH[OF _ d] Cons.prems(1) step by (simp add: c)
  next
    case (Some res')
    then show ?thesis
      using Cons.prems(1) step d handleResponse_errors(2)[OF step, of res] by (simp add: c)
  qed
qed

text \<open>
  C4 at a candidate list that holds the same word twice: the dictation engine appends a
  record on every wrong answer without looking for an earlier one, and the summary of the
  session carries two records with the same \<open>wordId\<close>.
\<close>

theorem dictation_duplicate_error_records:
  "dictationSession duplicate_events (initDictation [apple, apple] 2) = Some duplicate_result \<and>
   map wordId (d_errors duplicate_result) = [''A'', ''A''] \<and>
   \<not> distinct (map wordId (d_errors duplicate_result))"
  using duplicate_run by (simp add: duplicate_result_def)

text \<open>
  C8. A \<open>known\<close> response leaves the error accumulator and the queue as they were, and
  the summary it may emit carries that accumulator. Every record that is in the
  accumulator at some point of a session is in the final \<open>errors\<close>; so a word that was
  answered \<open>vague\<close> or \<open>unknown\<close> and whose last response is \<open>known\<close> has a record in
  the final \<open>errors\<close> and its id in the final \<open>learnedIds\<close>.
\<close>

theorem known_keeps_errors_and_queue:
  "(handleResponse e Known s = (s', out) \<longrightarrow>
      sessionErrors s' = sessionErrors s \<and> queue s' = queue s \<and>
      (\<forall>res. out = Some res \<longrightarrow> errors res = sessionErrors s)) \<and>
   (studySession cs s0 = Some res \<and> st \<in> set (visited cs s0) \<longrightarrow>
      set (sessionErrors st) \<subseteq> set (errors res)) \<and>
   (studySession cs (initStudy uuid words targetCount) = Some res \<and>
    (w, r) \<in> set (responses cs (initStudy uuid words targetCount)) \<and> r \<noteq> Known \<and>
    lastResponse (responses cs (initStudy uuid words targetCount)) w = Some Known \<longrightarrow>
      w \<in> wordId ` set (errors res) \<and> w \<in> set (result_learnedIds res))"
proof -
  have frame: "handleResponse e Known s = (s', out) \<longrightarrow>
      sessionErrors s' = sessionErrors s \<and> queue s' = queue s \<and>
      (\<forall>res. out = Some res \<longrightarrow> errors res = sessionErrors s)"
    by (cases "currentItem s")
       (auto simp: handleResponse_undefined handleResponse_Known split: if_splits)
  have learned: "w \<in> set (result_learnedIds res)"
    if "studySession cs (initStudy uuid words targetCount) = Some res"
       "lastResponse (responses cs (initStudy uuid words targetCount)) w = Some Known"
    using learned_last_gen[OF that(1), of "[]" w] that(2)
    by (simp add: lastResponse_def initStudy_def)
  show ?thesis
    using frame visited_errors_kept failed_word_recorded learned by blast
qed

theorem known_keeps_errors_and_queue_witness:
  "handleResponse env0 Known scenario_after_unknown =
     (scenario_after_unknown\<lparr>learnedIds := [''A'', ''B''], currentIndex := 3\<rparr>, None) \<and>
   sessionErrors (scenario_after_unknown\<lparr>learnedIds := [''A'', ''B''], currentIndex := 3\<rparr>)
     = sessionErrors scenario_after_unknown \<and>
   queue (scenario_after_unknown\<lparr>learnedIds := [''A'', ''B''], currentIndex := 3\<rparr>)
     = queue scenario_after_unknown \<and>
   studySession scenario_calls (initStudy uuid0 [apple, bee] 2) = Some scenario_result \<and>
   scenario_after_unknown \<in> set (visited scenario_calls (initStudy uuid0 [apple, bee] 2)) \<and>
   set (sessionErrors scenario_after_unknown) \<subseteq> set (errors scenario_result) \<and>
   (''B'', Unknown) \<in> set (responses scenario_calls (initStudy uuid0 [apple, bee] 2)) \<and>
   lastResponse (responses scenario_calls (initStudy uuid0 [apple, bee] 2)) ''B'' = Some Known \<and>
   ''B'' \<in> wordId ` set (errors scenario_result) \<and>
   ''B'' \<in> set (result_learnedIds scenario_result)"
proof -
  let ?init = "initStudy uuid0 [apple, bee] 2"
  let ?s' = "scenario_after_unknown\<lparr>learnedIds := [''A'', ''B''], currentIndex := 3\<rparr>"
  have step: "handleResponse env0 Known scenario_after_unknown = (?s', None)"
    by code_simp
  have run: "studySession scenario_calls ?init = Some scenario_result"
    using scenario_run by (simp add: scenario_start_def)
  have vis: "scenario_after_unknown \<in> set (visited scenario_calls ?init)"
    by code_simp
  have resp: "responses scenario_calls ?init =
      [(''A'', Known), (''B'', Unknown), (''B'', Known), (''B'', Known), (''B'', Known)]"
    using scenario_responses by (simp add: scenario_start_def)
  have failed: "(''B'', Unknown) \<in> set (responses scenario_calls ?init)"
    by (simp add: resp)
  have last: "lastResponse (responses scenario_calls ?init) ''B'' = Some Known"
    by (simp add: resp lastResponse_def)
  have inst: "(sessionErrors ?s' = sessionErrors scenario_after_unknown \<and>
              queue ?s' = queue scenario_after_unknown) \<and>
             set (sessionErrors scenario_after_unknown) \<subseteq> set (errors scenario_result) \<and>
             ''B'' \<in> wordId ` set (errors scenario_result) \<and>
             ''B'' \<in> set (result_learnedIds scenario_result)"
    using known_keeps_errors_and_queue[where e = env0 and s = scenario_after_unknown
        and s' = ?s' and out = None and cs = scenario_calls and ?s0.0 = ?init
        and res = scenario_result and st = scenario_after_unknown and uuid = uuid0
        and words = "[apple, bee]" and targetCount = 2 and w = "''B''" and r = Unknown]
      step run vis failed last
    by simp
  show ?thesis using inst step run vis failed last by simp
qed

section \<open>The summary and the last response\<close>

lemma handleSubmit_graded: "d_feedback d \<noteq> NoFeedback \<Longrightarrow> handleSubmit e d = d"
  by (simp add: handleSubmit_def split: option.splits)

lemma handleSubmit_pending:
  assumes "currentWord d = Some w" and "d_feedback d = NoFeedback"
  shows "handleSubmit e d =
    (if toLowerCase (trim (d_input d)) = toLowerCase (word_text w)
     then d\<lparr>d_feedback := Correct, d_learnedIds := d_learnedIds d @ [word_id w]\<rparr>
     else d\<lparr>d_feedback := Incorrect,
            d_sessionErrors := d_sessionErrors d @
              [\<lparr>wordId = word_id w, wordText = word_text w,
                wordDefinition = word_definition w, wordPhonetic = word_phonetic w,
                date = today e, err_type = Dictation\<rparr>]\<rparr>)"
  using assms by (simp add: handleSubmit_def Let_def)

lemma cat_pending:
  "currentWord ((initDictation [cat] 1)\<lparr>d_input := ''dog''\<rparr>) = Some cat"
  "d_feedback ((initDictation [cat] 1)\<lparr>d_input := ''dog''\<rparr>) = NoFeedback"
  by (simp_all add: currentWord_def initDictation_def slice0_def)

lemma cat_mismatch:
  "toLowerCase (trim (d_input ((initDictation [cat] 1)\<lparr>d_input := ''dog''\<rparr>)))
     \<noteq> toLowerCase (word_text cat)"
  by code_simp

text \<open>
  C5. The summary a study response emits equals the state that response leaves:
  \<open>learnedIds\<close>, \<open>errors\<close> and the count over the queue; a word answered \<open>known\<close> on the
  finishing call is in the emitted \<open>learnedIds\<close>. The summary a dictation event emits is
  read from the state the preceding submit left, so the error recorded by the final
  submit is the last of the emitted \<open>errors\<close>.
\<close>

theorem summary_from_final_state:
  "(handleResponse e r s = (s', Some res) \<longrightarrow>
      result_learnedIds res = learnedIds s' \<and> errors res = sessionErrors s' \<and>
      reviewedCount res = set_size (map (\<lambda>i. word_id (word i)) (queue s'))) \<and>
   (currentItem s = Some item \<and> handleResponse e Known s = (s', Some res) \<longrightarrow>
      word_id (word item) \<in> set (result_learnedIds res)) \<and>
   (dictationStep ev g = (d', Some dres) \<longrightarrow>
      d_errors dres = d_sessionErrors g \<and> d_result_learnedIds dres = d_learnedIds g) \<and>
   (currentWord d = Some w \<and> d_feedback d = NoFeedback \<and>
    toLowerCase (trim (d_input d)) \<noteq> toLowerCase (word_text w) \<and>
    nextWord (handleSubmit e d) = (d', Some dres) \<longrightarrow>
      d_errors dres = d_sessionErrors d @
        [\<lparr>wordId = word_id w, wordText = word_text w,
          wordDefinition = word_definition w, wordPhonetic = word_phonetic w,
          date = today e, err_type = Dictation\<rparr>])"
proof -
  have study: "handleResponse e r s = (s', Some res) \<longrightarrow>
      result_learnedIds res = learnedIds s' \<and> errors res = sessionErrors s' \<and>
      reviewedCount res = set_size (map (\<lambda>i. word_id (word i)) (queue s'))"
  proof (cases "currentItem s")
    case None
    then show ?thesis by (simp add: handleResponse_undefined)
  next
    case (Some it)
    then show ?thesis
      by (cases r) (auto simp: handleResponse_cases split: if_splits)
  qed
  have known: "currentItem s = Some item \<and> handleResponse e Known s = (s', Some res) \<longrightarrow>
      word_id (word item) \<in> set (result_learnedIds res)"
    by (auto simp: handleResponse_Known set_set_add split: if_splits)
  have dict: "dictationStep ev g = (d', Some dres) \<longrightarrow>
      d_errors dres = d_sessionErrors g \<and> d_result_learnedIds dres = d_learnedIds g"
    by (cases ev) (auto simp: handleKeyDown_def nextWord_def Let_def split: if_splits)
  have final: "currentWord d = Some w \<and> d_feedback d = NoFeedback \<and>
    toLowerCase (trim (d_input d)) \<noteq> toLowerCase (word_text w) \<and>
    nextWord (handleSubmit e d) = (d', Some dres) \<longrightarrow>
      d_errors dres = d_sessionErrors d @
        [\<lparr>wordId = word_id w, wordText = word_text w,
          wordDefinition = word_definition w, wordPhonetic = word_phonetic w,
          date = today e, err_type = Dictation\<rparr>]"
    by (auto simp: handleSubmit_pending nextWord_def Let_def split: if_splits)
  show ?thesis using study known dict final by blast
qed

theorem summary_from_final_state_witness:
  "currentItem (scenario_start\<lparr>currentIndex := 1\<rparr>) = Some \<lparr>word = bee, item_id = uuid0 1\<rparr> \<and>
   handleResponse env0 Known (scenario_start\<lparr>currentIndex := 1\<rparr>) =
     (scenario_start\<lparr>currentIndex := 1, learnedIds := [''B'']\<rparr>,
      Some \<lparr>reviewedCount = 2, errors = [], result_learnedIds = [''B'']\<rparr>) \<and>
   word_id (word \<lparr>word = bee, item_id = uuid0 1\<rparr>)
     \<in> set (result_learnedIds \<lparr>reviewedCount = 2, errors = [], result_learnedIds = [''B'']\<rparr>) \<and>
   currentWord ((initDictation [cat] 1)\<lparr>d_input := ''dog''\<rparr>) = Some cat \<and>
   d_feedback ((initDictation [cat] 1)\<lparr>d_input := ''dog''\<rparr>) = NoFeedback \<and>
   toLowerCase (trim (d_input ((initDictation [cat] 1)\<lparr>d_input := ''dog''\<rparr>)))
     \<noteq> toLowerCase (word_text cat) \<and>
   nextWord (handleSubmit env0 ((initDictation [cat] 1)\<lparr>d_input := ''dog''\<rparr>)) =
     ((initDictation [cat] 1)\<lparr>d_sessionErrors := d_errors cat_result\<rparr>, Some cat_result) \<and>
   dictationStep ClickNext (handleSubmit env0 ((initDictation [cat] 1)\<lparr>d_input := ''dog''\<rparr>)) =
     ((initDictation [cat] 1)\<lparr>d_sessionErrors := d_errors cat_result\<rparr>, Some cat_result) \<and>
   d_errors cat_result =
     d_sessionErrors (handleSubmit env0 ((initDictation [cat] 1)\<lparr>d_input := ''dog''\<rparr>)) \<and>
   d_errors cat_result =
     d_sessionErrors ((initDictation [cat] 1)\<lparr>d_input := ''dog''\<rparr>) @
     [\<lparr>wordId = word_id cat, wordText = word_text cat, wordDefinition = word_definition cat,
       wordPhonetic = word_phonetic cat, date = today env0, err_type = Dictation\<rparr>]"
proof -
  let ?s = "scenario_start\<lparr>currentIndex := 1\<rparr>"
  let ?s' = "scenario_start\<lparr>currentIndex := 1, learnedIds := [''B'']\<rparr>"
  let ?res = "\<lparr>reviewedCount = 2, errors = [], result_learnedIds = [''B'']\<rparr>"
  let ?d = "(initDictation [cat] 1)\<lparr>d_input := ''dog''\<rparr>"
  let ?d' = "(initDictation [cat] 1)\<lparr>d_sessionErrors := d_errors cat_result\<rparr>"
  have h: "currentItem ?s = Some \<lparr>word = bee, item_id = uuid0 1\<rparr>"
    using scenario_queue by (simp add: currentItem_def)
  have k: "handleResponse env0 Known ?s = (?s', Some ?res)"
    by code_simp
  have n: "nextWord (handleSubmit env0 ?d) = (?d', Some cat_result)"
    by code_simp
  have c: "dictationStep ClickNext (handleSubmit env0 ?d) = (?d', Some cat_result)"
    by code_simp
  note inst = summary_from_final_state[where e = env0 and r = Known and s = ?s and s' = ?s'
      and res = ?res and item = "\<lparr>word = bee, item_id = uuid0 1\<rparr>" and ev = ClickNext
      and g = "handleSubmit env0 ?d" and d' = ?d' and dres = cat_result and d = ?d and w = cat]
  show ?thesis
    using inst h k n c cat_pending cat_mismatch by blast
qed

section \<open>Dictation grading and the states of an entry\<close>

text \<open>
  C6. For a pending entry, the submission is graded correct if and only if the typed
  text, trimmed and lower-cased, equals the lower-cased text of the current word. On a
  match the word's id is appended to \<open>learnedIds\<close> and nothing else but the feedback
  changes; on a mismatch one error record for the word is appended to the errors.
\<close>

theorem dictation_grading:
  assumes "currentWord d = Some w" and "d_feedback d = NoFeedback"
  shows "(d_feedback (handleSubmit e d) = Correct \<longleftrightarrow>
            toLowerCase (trim (d_input d)) = toLowerCase (word_text w)) \<and>
         (toLowerCase (trim (d_input d)) = toLowerCase (word_text w) \<longrightarrow>
            handleSubmit e d =
              d\<lparr>d_feedback := Correct, d_learnedIds := d_learnedIds d @ [word_id w]\<rparr>) \<and>
         (toLowerCase (trim (d_input d)) \<noteq> toLowerCase (word_text w) \<longrightarrow>
            handleSubmit e d =
              d\<lparr>d_feedback := Incorrect,
                d_sessionErrors := d_sessionErrors d @
                  [\<lparr>wordId = word_id w, wordText = word_text w,
                    wordDefinition = word_definition w, wordPhonetic = word_phonetic w,
                    date = today e, err_type = Dictation\<rparr>]\<rparr>)"
  by (simp add: handleSubmit_pending[OF assms])

text \<open>\<open>"Apple "\<close> matches the target \<open>"apple"\<close>; \<open>"dog"\<close> does not match \<open>"cat"\<close>.\<close>

theorem dictation_grading_witness:
  "currentWord ((initDictation [apple] 1)\<lparr>d_input := ''Apple ''\<rparr>) = Some apple \<and>
   d_feedback ((initDictation [apple] 1)\<lparr>d_input := ''Apple ''\<rparr>) = NoFeedback \<and>
   toLowerCase (trim ''Apple '') = toLowerCase (word_text apple) \<and>
   handleSubmit env0 ((initDictation [apple] 1)\<lparr>d_input := ''Apple ''\<rparr>) =
     (initDictation [apple] 1)\<lparr>d_input := ''Apple '', d_feedback := Correct,
                                d_learnedIds := [''A'']\<rparr> \<and>
   handleSubmit env0 ((initDictation [cat] 1)\<lparr>d_input := ''dog''\<rparr>) =
     (initDictation [cat] 1)\<lparr>d_input := ''dog'', d_feedback := Incorrect,
                              d_sessionErrors := d_errors cat_result\<rparr>"
proof -
  let ?d = "(initDictation [apple] 1)\<lparr>d_input := ''Apple ''\<rparr>"
  have cw: "currentWord ?d = Some apple"
    by (simp add: currentWord_def initDictation_def slice0_def)
  have fb: "d_feedback ?d = NoFeedback"
    by (simp add: initDictation_def)
  have m: "toLowerCase (trim ''Apple '') = toLowerCase (word_text apple)"
    by code_simp
  have a: "handleSubmit env0 ?d =
      (initDictation [apple] 1)\<lparr>d_input := ''Apple '', d_feedback := Correct,
                                 d_learnedIds := [''A'']\<rparr>"
    using dictation_grading[OF cw fb, of env0] m
    by (simp add: initDictation_def apple_def)
  have c: "handleSubmit env0 ((initDictation [cat] 1)\<lparr>d_input := ''dog''\<rparr>) =
      (initDictation [cat] 1)\<lparr>d_input := ''dog'', d_feedback := Incorrect,
                               d_sessionErrors := d_errors cat_result\<rparr>"
    using dictation_grading[OF cat_pending, of env0] cat_mismatch
    by (simp add: initDictation_def cat_def cat_result_def env0_def)
  show ?thesis using cw fb m a c by simp
qed

text \<open>
  C7, as the code has it. Submitting a pending entry grades it; a second submit before
  advancing returns the state unchanged; the Enter key and the "next" button do nothing
  while the entry is pending (state unchanged, no summary), and on a graded entry that
  is not the last Enter moves the cursor on and makes the next entry pending.
  \<open>nextWord\<close> itself does not look at the feedback.
\<close>

theorem dictation_entry_states:
  "(currentWord d = Some w \<and> d_feedback d = NoFeedback \<longrightarrow>
      d_feedback (handleSubmit e d) \<noteq> NoFeedback) \<and>
   (d_feedback g \<noteq> NoFeedback \<longrightarrow> handleSubmit e g = g) \<and>
   (d_feedback d = NoFeedback \<longrightarrow>
      handleKeyDown k d = (d, None) \<and> dictationStep ClickNext d = (d, None)) \<and>
   (d_feedback g \<noteq> NoFeedback \<and> d_currentIndex g + 1 < length (d_queue g) \<longrightarrow>
      handleKeyDown ''Enter'' g =
        (g\<lparr>d_feedback := NoFeedback, d_input := [], d_currentIndex := d_currentIndex g + 1\<rparr>,
         None))"
  by (auto simp: handleSubmit_pending handleSubmit_graded handleKeyDown_def nextWord_def Let_def)

theorem dictation_entry_states_witness:
  "currentWord (initDictation [cat, apple] 2) = Some cat \<and>
   d_feedback (initDictation [cat, apple] 2) = NoFeedback \<and>
   d_feedback (handleSubmit env0 (initDictation [cat, apple] 2)) \<noteq> NoFeedback \<and>
   handleSubmit env0 (handleSubmit env0 (initDictation [cat, apple] 2)) =
     handleSubmit env0 (initDictation [cat, apple] 2) \<and>
   handleKeyDown ''Enter'' (initDictation [cat, apple] 2) = (initDictation [cat, apple] 2, None) \<and>
   dictationStep ClickNext (initDictation [cat, apple] 2) = (initDictation [cat, apple] 2, None) \<and>
   d_currentIndex (handleSubmit env0 (initDictation [cat, apple] 2)) + 1
     < length (d_queue (handleSubmit env0 (initDictation [cat, apple] 2))) \<and>
   handleKeyDown ''Enter'' (handleSubmit env0 (initDictation [cat, apple] 2)) =
     ((handleSubmit env0 (initDictation [cat, apple] 2))
        \<lparr>d_feedback := NoFeedback, d_input := [], d_currentIndex := 1\<rparr>, None)"
proof -
  let ?d = "initDictation [cat, apple] 2"
  let ?g = "handleSubmit env0 ?d"
  have cw: "currentWord ?d = Some cat"
    by (simp add: currentWord_def initDictation_def slice0_def)
  have fb: "d_feedback ?d = NoFeedback"
    by (simp add: initDictation_def)
  have graded: "d_feedback ?g \<noteq> NoFeedback"
    using dictation_entry_states[where d = ?d and w = cat and e = env0 and g = ?d] cw fb
    by simp
  have idx: "d_currentIndex ?g + 1 < length (d_queue ?g)"
    by code_simp
  have i0: "d_currentIndex ?g = 0"
    by code_simp
  show ?thesis
    using dictation_entry_states[where d = ?d and w = cat and e = env0 and g = ?g
        and k = "''Enter''"] cw fb graded idx i0
    by simp
qed

text \<open>
  Called on a pending entry, \<open>nextWord\<close> moves the cursor, and on the last entry it
  emits the summary.
\<close>

theorem nextWord_pending_counterexample:
  "d_feedback (initDictation [cat, apple] 2) = NoFeedback \<and>
   d_currentIndex (initDictation [cat, apple] 2) = 0 \<and>
   nextWord (initDictation [cat, apple] 2) =
     ((initDictation [cat, apple] 2)\<lparr>d_currentIndex := 1\<rparr>, None) \<and>
   d_feedback (initDictation [cat] 1) = NoFeedback \<and>
   nextWord (initDictation [cat] 1) =
     (initDictation [cat] 1,
      Some \<lparr>totalCount = 1, d_errors = [], d_result_learnedIds = []\<rparr>)"
  by (simp add: nextWord_def initDictation_def slice0_def)

end
